theory Spec2Isabelle
  imports Main
begin

section \<open>The class-action primitive (src/src/class-action.ts)\<close>

text \<open>
  A \<open>ClassAction\<close> is a JavaScript object with an optional own property \<open>reactions\<close>
  (an array of references to other class actions), a class (its constructor) that may
  carry a static \<open>reactions\<close> array, and a method \<open>doAction\<close> that subclasses override.
  The embedding keeps the three ingredients apart:
  \<^item> objects live in a heap and are named by their address, so that two objects with
    the same contents are still different references (\<open>indexOf\<close> compares references);
  \<^item> a class is the chain of \<open>extends\<close> declarations that leads to \<open>ClassAction\<close>;
    static properties and methods are looked up along this chain, as JavaScript does
    along the prototype chain;
  \<^item> an overridden \<open>doAction\<close> is a function from the world to an outcome, which is
    either a normal return or a thrown value together with the world at that moment.

  What the embedding takes for granted: every reference is to a class action (the
  declared type \<open>ClassAction<any>[]\<close>; every address of the heap holds an object);
  an own \<open>reactions\<close> property holds an array, and no two objects share one array
  (the source never makes them share: the constructor stores its own rest array,
  \<open>addReactions\<close> a new empty one); the accessors and \<open>act\<close>, \<open>doReactions\<close> are the
  ones of \<open>ClassAction\<close>, only \<open>doAction\<close> is overridden; an override returns or
  throws, and does not call \<open>act\<close> itself.
\<close>

subsection \<open>Data\<close>

type_synonym ref = nat

datatype klass = ClassAction | Extends string klass

record obj =
  cls :: klass
  reactions :: "ref list option"

record 'u world =
  heap :: "ref \<Rightarrow> obj"
  statics :: "klass \<Rightarrow> ref list option"
  user :: 'u

datatype 'u outcome = Normal "'u world" | Throw string "'u world"

type_synonym ('c, 'u) handler = "ref \<Rightarrow> 'c \<Rightarrow> 'u world \<Rightarrow> 'u outcome"

type_synonym ('c, 'u) overrides = "klass \<Rightarrow> ('c, 'u) handler option"

datatype calltree = Call ref "calltree list"

fun root :: "calltree \<Rightarrow> ref" where
  "root (Call r ts) = r"

subsection \<open>JavaScript array primitives used by the source\<close>

text \<open>
  \<open>Array.prototype.indexOf\<close>: the first index holding the searched reference, \<open>-1\<close>
  when there is none.
\<close>

fun indexOf :: "'a list \<Rightarrow> 'a \<Rightarrow> int" where
  "indexOf [] x = - 1"
| "indexOf (y # ys) x =
     (if y = x then 0
      else (let i = indexOf ys x in if i < 0 then - 1 else i + 1))"

text \<open>
  \<open>Array.prototype.splice(start, deleteCount)\<close> with no inserted items: a negative
  \<open>start\<close> counts from the end of the array, a \<open>start\<close> beyond the end is the length,
  and \<open>deleteCount\<close> is clamped to what is left after \<open>start\<close>. The result is the
  array after the call.
\<close>

definition splice :: "int \<Rightarrow> int \<Rightarrow> 'a list \<Rightarrow> 'a list" where
  "splice start deleteCount xs =
     (let len = int (length xs);
          actualStart = (if start < 0 then max (len + start) 0 else min start len);
          actualDeleteCount = min (max deleteCount 0) (len - actualStart)
      in take (nat actualStart) xs @ drop (nat (actualStart + actualDeleteCount)) xs)"

text \<open>\<open>Array.prototype.flat()\<close> on an array of arrays of references.\<close>

definition flat :: "'a list list \<Rightarrow> 'a list" where
  "flat xss = concat xss"

subsection \<open>Property lookup along the chain of classes\<close>

text \<open>
  \<open>this.reactions\<close> inside a static method, and the dispatch of \<open>doAction\<close>, read the
  property of the class itself when it has one and otherwise that of the class it
  extends, up to \<open>ClassAction\<close>.
\<close>

fun lookup :: "(klass \<Rightarrow> 'a option) \<Rightarrow> klass \<Rightarrow> 'a option" where
  "lookup own ClassAction = own ClassAction"
| "lookup own (Extends name super) =
     (case own (Extends name super) of
        Some v \<Rightarrow> Some v
      | None \<Rightarrow> lookup own super)"

text \<open>The classes that such a lookup visits, in the order in which it visits them.\<close>

fun chain :: "klass \<Rightarrow> klass list" where
  "chain ClassAction = [ClassAction]"
| "chain (Extends name super) = Extends name super # chain super"

subsection \<open>Constructor, accessors and mutators\<close>

text \<open>
  \<open>constructor(...reactions)\<close>: \<open>this\<close> is the object being initialised.
\<close>

definition constructor :: "obj \<Rightarrow> ref list \<Rightarrow> obj" where
  "constructor this rs =
     (if length rs \<noteq> 0 then
        (case reactions this of
           None \<Rightarrow> this\<lparr>reactions := Some rs\<rparr>
         | Some old \<Rightarrow> this\<lparr>reactions := Some (old @ rs)\<rparr>)
      else this)"

text \<open>\<open>new K(...reactions)\<close> for a class \<open>K\<close> that inherits the constructor.\<close>

definition new :: "klass \<Rightarrow> ref list \<Rightarrow> obj" where
  "new k rs = constructor \<lparr>cls = k, reactions = None\<rparr> rs"

text \<open>
  \<open>new K(...reactions)\<close> for a class \<open>K\<close> whose declaration, or that of a class it
  extends, has a field \<open>reactions = [...]\<close> or a constructor of its own, as the classes
  of the tests \<open>ClassAction.constructor\<close> have (src/test/class-action.test.js, lines
  18 to 36). What a subclass declares about its instances is: the arguments that its
  constructor hands to \<open>super(...)\<close>, as a function of its own arguments (the identity
  when it declares no constructor), and the value of its field \<open>reactions\<close> if it
  declares one. JavaScript creates the object without own properties, runs the
  constructors from \<open>ClassAction\<close> downwards, and installs the fields of a class when
  the \<open>super(...)\<close> call of that class has returned.
\<close>

record instance_decl =
  super_args :: "ref list \<Rightarrow> ref list"
  field_reactions :: "ref list option"

fun construct :: "(klass \<Rightarrow> instance_decl) \<Rightarrow> klass \<Rightarrow> obj \<Rightarrow> ref list \<Rightarrow> obj" where
  "construct D ClassAction this rs = constructor this rs"
| "construct D (Extends name super) this rs =
     (let this' = construct D super this (super_args (D (Extends name super)) rs)
      in (case field_reactions (D (Extends name super)) of
            None \<Rightarrow> this'
          | Some d \<Rightarrow> this'\<lparr>reactions := Some d\<rparr>))"

definition new_declared :: "(klass \<Rightarrow> instance_decl) \<Rightarrow> klass \<Rightarrow> ref list \<Rightarrow> obj" where
  "new_declared D k rs = construct D k \<lparr>cls = k, reactions = None\<rparr> rs"

text \<open>
  The arguments that reach the constructor of \<open>ClassAction\<close>, and the field value that
  is installed last (that of the nearest class in the chain that declares the field).
\<close>

fun base_args :: "(klass \<Rightarrow> instance_decl) \<Rightarrow> klass \<Rightarrow> ref list \<Rightarrow> ref list" where
  "base_args D ClassAction rs = rs"
| "base_args D (Extends name super) rs =
     base_args D super (super_args (D (Extends name super)) rs)"

fun declared_default :: "(klass \<Rightarrow> instance_decl) \<Rightarrow> klass \<Rightarrow> ref list option" where
  "declared_default D ClassAction = None"
| "declared_default D (Extends name super) =
     (case field_reactions (D (Extends name super)) of
        Some d \<Rightarrow> Some d
      | None \<Rightarrow> declared_default D super)"

text \<open>\<open>static getReactions(context)\<close>: \<open>this.reactions || []\<close>, \<open>this\<close> being the class.\<close>

definition getClassReactions :: "'u world \<Rightarrow> klass \<Rightarrow> ref list" where
  "getClassReactions w k = (case lookup (statics w) k of Some rs \<Rightarrow> rs | None \<Rightarrow> [])"

text \<open>\<open>getReactions(context)\<close> of an instance.\<close>

definition getReactions :: "obj \<Rightarrow> ref list" where
  "getReactions this = (case reactions this of None \<Rightarrow> [] | Some rs \<Rightarrow> rs)"

text \<open>
  \<open>getAllReactions(context)\<close>: the static accessor is called on \<open>this.constructor\<close>, the
  class of the object in the heap.
\<close>

definition getAllReactions :: "'u world \<Rightarrow> ref \<Rightarrow> ref list" where
  "getAllReactions w this =
     (let result = getClassReactions w (cls (heap w this))
      in flat [result, getReactions (heap w this)])"

text \<open>\<open>addReactions(...reactions)\<close>.\<close>

definition addReactions :: "obj \<Rightarrow> ref list \<Rightarrow> obj" where
  "addReactions this rs =
     (let this' = (if reactions this = None then this\<lparr>reactions := Some []\<rparr> else this)
      in this'\<lparr>reactions := Some (getReactions this' @ rs)\<rparr>)"

text \<open>\<open>removeReaction(reaction)\<close>.\<close>

definition removeReaction :: "obj \<Rightarrow> ref \<Rightarrow> obj" where
  "removeReaction this r =
     (case reactions this of
        None \<Rightarrow> this
      | Some rs \<Rightarrow> this\<lparr>reactions := Some (splice (indexOf rs r) 1 rs)\<rparr>)"

subsection \<open>Acting\<close>

text \<open>
  \<open>doAction(context)\<close>: the body in \<open>ClassAction\<close> is empty; a subclass may override it,
  and the override of the nearest class in the chain is the one that runs.
\<close>

definition doAction :: "('c, 'u) overrides \<Rightarrow> ('c, 'u) handler" where
  "doAction T this c w =
     (case lookup T (cls (heap w this)) of
        None \<Rightarrow> Normal w
      | Some m \<Rightarrow> m this c w)"

text \<open>
  The \<open>for ... of\<close> loop of \<open>doReactions\<close> over an array that nothing else refers to.
  A throwing body ends the loop. Next to the outcome the loop returns the calls it
  made, in order.
\<close>

fun forOf :: "(ref \<Rightarrow> 'u world \<Rightarrow> (calltree \<times> 'u outcome) option) \<Rightarrow> ref list \<Rightarrow> 'u world
    \<Rightarrow> (calltree list \<times> 'u outcome) option" where
  "forOf body [] w = Some ([], Normal w)"
| "forOf body (r # rs) w =
     (case body r w of
        None \<Rightarrow> None
      | Some (t, Throw e w') \<Rightarrow> Some ([t], Throw e w')
      | Some (t, Normal w') \<Rightarrow>
          (case forOf body rs w' of
             None \<Rightarrow> None
           | Some (ts, out) \<Rightarrow> Some (t # ts, out)))"

text \<open>
  \<open>act(context)\<close> and \<open>doReactions(context)\<close> call each other. The first argument bounds
  the depth of the call stack that is left; \<open>None\<close> means that the bound was reached,
  which is what happens at every bound when the reactions form a cycle.
  \<open>act\<close> returns the tree of the calls of \<open>act\<close> it gave rise to, \<open>doReactions\<close> the trees
  of the calls it made itself.
\<close>

fun act :: "nat \<Rightarrow> ('c, 'u) overrides \<Rightarrow> ref \<Rightarrow> 'c \<Rightarrow> 'u world \<Rightarrow> (calltree \<times> 'u outcome) option"
  and doReactions :: "nat \<Rightarrow> ('c, 'u) overrides \<Rightarrow> ref \<Rightarrow> 'c \<Rightarrow> 'u world
    \<Rightarrow> (calltree list \<times> 'u outcome) option" where
  "act 0 T this c w = None"
| "act (Suc n) T this c w =
     (case doAction T this c w of
        Throw e w' \<Rightarrow> Some (Call this [], Throw e w')
      | Normal w' \<Rightarrow>
          (case doReactions n T this c w' of
             None \<Rightarrow> None
           | Some (ts, out) \<Rightarrow> Some (Call this ts, out)))"
| "doReactions 0 T this c w = None"
| "doReactions (Suc n) T this c w =
     forOf (\<lambda>reaction. act n T reaction c) (getAllReactions w this) w"

subsection \<open>Configurations of the test suite (src/test/class-action.test.js)\<close>

text \<open>
  \<open>class MyClassAction extends ClassAction\<close>, and a class that extends it in turn and
  declares nothing of its own.
\<close>

definition MyClassAction :: klass where
  "MyClassAction = Extends ''MyClassAction'' ClassAction"

definition Derived :: klass where
  "Derived = Extends ''Derived'' MyClassAction"

text \<open>A heap in which every address holds \<open>new ClassAction()\<close>.\<close>

definition plain_heap :: "ref \<Rightarrow> obj" where
  "plain_heap a = new ClassAction []"

text \<open>\<open>static reactions = [reaction1, reaction2]\<close> in \<open>MyClassAction\<close>, and in no other class.\<close>

definition static_demo :: "klass \<Rightarrow> ref list option" where
  "static_demo k = (if k = MyClassAction then Some [1, 2] else None)"

definition no_statics :: "klass \<Rightarrow> ref list option" where
  "no_statics k = None"

text \<open>
  Test \<open>ClassAction#getAllReactions\<close>: object 3 is \<open>new MyClassAction(reaction1, reaction2)\<close>.
\<close>

definition static_world :: "unit world" where
  "static_world =
     \<lparr>heap = plain_heap(3 := new MyClassAction [1, 2]), statics = static_demo, user = ()\<rparr>"

text \<open>
  Tests \<open>ClassAction.constructor\<close>: a class without field and constructor; the class
  with the field \<open>reactions = [reaction1]\<close>; the class with the constructor
  \<open>constructor(...reactions) { super(reaction1, ...reactions) }\<close>.
\<close>

definition pass_on :: "ref list \<Rightarrow> ref list" where
  "pass_on rs = rs"

definition prepend_reaction1 :: "ref list \<Rightarrow> ref list" where
  "prepend_reaction1 rs = 1 # rs"

definition plain_decls :: "klass \<Rightarrow> instance_decl" where
  "plain_decls k = \<lparr>super_args = pass_on, field_reactions = None\<rparr>"

definition overwrite_decls :: "klass \<Rightarrow> instance_decl" where
  "overwrite_decls k =
     (if k = MyClassAction then \<lparr>super_args = pass_on, field_reactions = Some [1]\<rparr>
      else plain_decls k)"

definition extend_decls :: "klass \<Rightarrow> instance_decl" where
  "extend_decls k =
     (if k = MyClassAction then \<lparr>super_args = prepend_reaction1, field_reactions = None\<rparr>
      else plain_decls k)"

subsection \<open>Overrides of \<open>doAction\<close> used in the tests\<close>

text \<open>
  An override that only changes what the caller's variables hold (the \<open>user\<close> part of
  the world) and returns normally. \<open>doAction(context) { count++ }\<close> of the tests is
  \<open>effect_only increment\<close>.
\<close>

definition effect_only :: "(ref \<Rightarrow> 'c \<Rightarrow> 'u \<Rightarrow> 'u) \<Rightarrow> ('c, 'u) handler" where
  "effect_only eff this c w = Normal (w\<lparr>user := eff this c (user w)\<rparr>)"

definition increment :: "ref \<Rightarrow> 'c \<Rightarrow> nat \<Rightarrow> nat" where
  "increment this c count = count + 1"

definition count_overrides :: "('c, nat) overrides" where
  "count_overrides k = (if k = MyClassAction then Some (effect_only increment) else None)"

text \<open>
  Tests \<open>ClassAction.doAction\<close>, \<open>ClassAction.act\<close> and \<open>ClassAction.doReactions\<close>:
  object 3 is \<open>new MyClassAction(new MyClassAction(), new MyClassAction())\<close>, its two
  reactions are the objects 1 and 2, and \<open>count\<close> starts at 0.
\<close>

definition count_world :: "nat world" where
  "count_world =
     \<lparr>heap = plain_heap(1 := new MyClassAction [], 2 := new MyClassAction [],
         3 := new MyClassAction [1, 2]),
      statics = no_statics, user = 0\<rparr>"

text \<open>The same with a single reaction: object 3 is \<open>new MyClassAction(new MyClassAction())\<close>.\<close>

definition single_world :: "nat world" where
  "single_world =
     \<lparr>heap = plain_heap(1 := new MyClassAction [], 3 := new MyClassAction [1]),
      statics = no_statics, user = 0\<rparr>"

text \<open>
  A subclass whose \<open>doAction\<close> throws. Object 3 has the reactions 1, 5 and 2; object 5
  is of the throwing class and has the reaction 6.
\<close>

definition Failing :: klass where
  "Failing = Extends ''Failing'' MyClassAction"

definition boom :: "('c, 'u) handler" where
  "boom this c w = Throw ''boom'' w"

definition failing_overrides :: "('c, nat) overrides" where
  "failing_overrides k = (if k = Failing then Some boom else count_overrides k)"

definition failing_world :: "nat world" where
  "failing_world =
     \<lparr>heap = plain_heap(1 := new MyClassAction [], 2 := new MyClassAction [],
         5 := new Failing [6], 6 := new MyClassAction [], 3 := new MyClassAction [1, 5, 2]),
      statics = no_statics, user = 0\<rparr>"

text \<open>
  A subclass whose \<open>doAction\<close> receives another class action as its context and calls
  \<open>context.removeReaction(r2); context.addReactions(r4)\<close> on it. Object 3 has the
  reactions 1 and 2, and object 1 is of this class.
\<close>

definition Rewiring :: klass where
  "Rewiring = Extends ''Rewiring'' MyClassAction"

definition update_obj :: "ref \<Rightarrow> (obj \<Rightarrow> obj) \<Rightarrow> 'u world \<Rightarrow> 'u world" where
  "update_obj r f w = w\<lparr>heap := (heap w)(r := f (heap w r))\<rparr>"

definition rewire :: "(ref, 'u) handler" where
  "rewire this parent w =
     Normal (update_obj parent (\<lambda>p. addReactions p [4])
               (update_obj parent (\<lambda>p. removeReaction p 2) w))"

definition rewiring_overrides :: "(ref, nat) overrides" where
  "rewiring_overrides k = (if k = Rewiring then Some rewire else count_overrides k)"

definition rewiring_world :: "nat world" where
  "rewiring_world =
     \<lparr>heap = plain_heap(1 := new Rewiring [], 2 := new MyClassAction [],
         4 := new MyClassAction [], 3 := new MyClassAction [1, 2]),
      statics = no_statics, user = 0\<rparr>"

text \<open>The same world once object 3 holds \<open>[1, 4]\<close> and \<open>count\<close> is 1.\<close>

definition rewired_world :: "nat world" where
  "rewired_world =
     update_obj 3 (\<lambda>p. p\<lparr>reactions := Some [1, 4]\<rparr>) rewiring_world\<lparr>user := 1\<rparr>"


section \<open>Properties\<close>

subsection \<open>Array primitives\<close>

lemma indexOf_absent: "x \<notin> set xs \<Longrightarrow> indexOf xs x = - 1"
  by (induction xs) (auto simp: Let_def)

lemma indexOf_first: "r \<notin> set pre \<Longrightarrow> indexOf (pre @ r # post) r = int (length pre)"
  by (induction pre) (auto simp: Let_def)

lemma splice_one: "splice (int (length pre)) 1 (pre @ r # post) = pre @ post"
proof -
  have "nat (int (length pre) + 1) = Suc (length pre)" by simp
  then show ?thesis by (simp add: splice_def Let_def)
qed

lemma splice_minus_one: "splice (- 1) 1 xs = butlast xs"
  by (cases xs rule: rev_cases) (simp_all add: splice_def Let_def)

text \<open>
  What \<open>removeReaction\<close> does with a reference that the array does not hold:
  \<open>indexOf\<close> answers \<open>-1\<close>, and \<open>splice(-1, 1)\<close> removes the last element.
\<close>

lemma removeReaction_absent_general:
  "reactions this = Some rs \<Longrightarrow> r \<notin> set rs \<Longrightarrow>
     reactions (removeReaction this r) = Some (butlast rs)"
  by (simp add: removeReaction_def indexOf_absent splice_minus_one)

lemma removeReaction_no_own:
  "reactions this = None \<Longrightarrow> removeReaction this r = this"
  by (simp add: removeReaction_def)

subsection \<open>Removing\<close>

text \<open>
  C1. Removing a reaction that the instance does not hold should change nothing.
  Without an own \<open>reactions\<close> array it does (\<open>removeReaction_no_own\<close>). With one, the
  code removes the last element: after \<open>new ClassAction(r1, r2)\<close> and
  \<open>removeReaction(r2)\<close> the instance holds \<open>[r1]\<close>, and a second \<open>removeReaction(r2)\<close>
  leaves it with the empty array.
\<close>

theorem removeReaction_absent_removes_last:
  "getReactions (removeReaction (new ClassAction [1, 2]) 2) = [1] \<and>
   getReactions (removeReaction (removeReaction (new ClassAction [1, 2]) 2) 2) = []"
  by (simp add: removeReaction_def new_def constructor_def getReactions_def splice_def Let_def)

text \<open>
  C7. When the instance has its own array and the array holds the reference,
  \<open>removeReaction\<close> removes the first occurrence and nothing else: the array splits
  into a part without the reference, the reference, and a rest, and the result is the
  first part followed by the rest.
\<close>

theorem removeReaction_first_occurrence:
  "reactions this = Some rs \<Longrightarrow> r \<in> set rs \<Longrightarrow>
     \<exists>pre post. rs = pre @ r # post \<and> r \<notin> set pre \<and>
       reactions (removeReaction this r) = Some (pre @ post)"
proof -
  assume own: "reactions this = Some rs" and mem: "r \<in> set rs"
  from mem obtain pre post where split: "rs = pre @ r # post" and first: "r \<notin> set pre"
    by (auto dest: split_list_first)
  have "splice (indexOf rs r) 1 rs = pre @ post"
    using first by (simp add: split indexOf_first splice_one)
  with own have "reactions (removeReaction this r) = Some (pre @ post)"
    by (simp add: removeReaction_def)
  with split first show ?thesis by blast
qed

theorem removeReaction_first_occurrence_witness:
  "reactions (new ClassAction [1, 2, 1]) = Some [1, 2, 1] \<and> (1::nat) \<in> set [1, 2, 1] \<and>
   (\<exists>pre post. [1, 2, 1] = pre @ (1::nat) # post \<and> 1 \<notin> set pre \<and>
       reactions (removeReaction (new ClassAction [1, 2, 1]) 1) = Some (pre @ post)) \<and>
   getReactions (removeReaction (new ClassAction [1, 2, 1]) 1) = [2, 1] \<and>
   getReactions (removeReaction (new ClassAction [1, 2]) 2) = [1]"
proof -
  have own: "reactions (new ClassAction [1, 2, 1]) = Some [1, 2, 1]"
    by (simp add: new_def constructor_def)
  have mem: "(1::nat) \<in> set [1, 2, 1]" by simp
  have eval: "getReactions (removeReaction (new ClassAction [1, 2, 1]) 1) = [2, 1]"
    "getReactions (removeReaction (new ClassAction [1, 2]) 2) = [1]"
    by (simp_all add: removeReaction_def new_def constructor_def getReactions_def splice_def Let_def)
  from removeReaction_first_occurrence [OF own mem] own mem eval show ?thesis by blast
qed

subsection \<open>Accessors\<close>

text \<open>
  C2. The claim that a class without a static \<open>reactions\<close> declaration of its own
  yields the empty sequence fails: \<open>Derived\<close> declares none, extends \<open>MyClassAction\<close>,
  and yields the sequence declared there.
\<close>

theorem getClassReactions_inherited_counterexample:
  "statics static_world Derived = None \<and> getClassReactions static_world Derived = [1, 2]"
  by (simp add: static_world_def static_demo_def Derived_def MyClassAction_def getClassReactions_def)

lemma lookup_chain:
  "lookup own k = (case List.map_filter own (chain k) of [] \<Rightarrow> None | v # rest \<Rightarrow> Some v)"
  by (induction k) (simp_all add: map_filter_simps split: option.splits)

text \<open>
  C2, amended. The static accessor yields the sequence declared by the nearest class
  in the chain that starts at the invoking class and follows the classes it extends
  up to \<open>ClassAction\<close>: the first of the declared sequences along the chain, and the
  empty sequence when no class of the chain declares one. Step by step: the sequence
  that the class declares itself, and without one what the class it extends yields.
\<close>

theorem getClassReactions_nearest:
  "getClassReactions w k =
     (case List.map_filter (statics w) (chain k) of [] \<Rightarrow> [] | rs # rest \<Rightarrow> rs) \<and>
   getClassReactions w k =
     (case statics w k of
        Some rs \<Rightarrow> rs
      | None \<Rightarrow> (case k of ClassAction \<Rightarrow> [] | Extends name super \<Rightarrow> getClassReactions w super))"
proof
  show "getClassReactions w k =
     (case List.map_filter (statics w) (chain k) of [] \<Rightarrow> [] | rs # rest \<Rightarrow> rs)"
    by (simp add: getClassReactions_def lookup_chain split: list.splits)
next
  show "getClassReactions w k =
     (case statics w k of
        Some rs \<Rightarrow> rs
      | None \<Rightarrow> (case k of ClassAction \<Rightarrow> [] | Extends name super \<Rightarrow> getClassReactions w super))"
    by (cases k) (simp_all add: getClassReactions_def split: option.splits)
qed

text \<open>
  C4. \<open>getAllReactions\<close> is the sequence of the class of the object in the heap
  followed by the sequence of the instance, each in its own order; it reads the world
  and returns a value, nothing is written. With the static default \<open>[r1, r2]\<close> and the
  instance reactions \<open>[r1, r2]\<close> the result is \<open>[r1, r2, r1, r2]\<close>.
\<close>

theorem getAllReactions_concat:
  "getAllReactions w this = getClassReactions w (cls (heap w this)) @ getReactions (heap w this) \<and>
   getAllReactions static_world 3 = [1, 2, 1, 2]"
  by (simp add: getAllReactions_def flat_def static_world_def static_demo_def getClassReactions_def
      getReactions_def new_def constructor_def MyClassAction_def)

subsection \<open>Constructing and adding\<close>

text \<open>
  The two branches of the constructor, for an object in any state.
\<close>

lemma constructor_branches:
  "rs \<noteq> [] \<Longrightarrow>
     reactions (constructor this rs) =
       (case reactions this of None \<Rightarrow> Some rs | Some old \<Rightarrow> Some (old @ rs))"
  by (simp add: constructor_def split: option.splits)

lemma constructor_fresh:
  "reactions (constructor \<lparr>cls = c, reactions = None\<rparr> rs) = (if rs = [] then None else Some rs)"
  "cls (constructor this rs) = cls this"
  by (simp_all add: constructor_def split: option.splits)

lemma construct_fresh:
  "reactions (construct D k \<lparr>cls = c, reactions = None\<rparr> rs) =
     (case declared_default D k of
        Some d \<Rightarrow> Some d
      | None \<Rightarrow> (if base_args D k rs = [] then None else Some (base_args D k rs)))"
  by (induction k arbitrary: rs) (simp_all add: constructor_fresh Let_def split: option.splits)

lemma construct_cls: "cls (construct D k this rs) = cls this"
  by (induction k arbitrary: rs) (simp_all add: constructor_fresh Let_def split: option.splits)

lemma new_declared_plain: "new_declared plain_decls k rs = new k rs"
proof -
  have "construct plain_decls k this rs = constructor this rs" for this
    by (induction k) (simp_all add: plain_decls_def pass_on_def)
  then show ?thesis by (simp add: new_declared_def new_def)
qed

text \<open>
  C5. The claim that the arguments are appended to a sequence that the instance
  carries because a subtype declared it as a default member fails: the constructor
  runs before the field of the subtype is installed, so it finds no sequence, stores
  the arguments, and the field then replaces them. With the default \<open>[r1]\<close> and the
  arguments \<open>(r1, r2)\<close> the instance holds \<open>[r1]\<close>, not \<open>[r1, r1, r2]\<close>.
\<close>

theorem predeclared_default_counterexample:
  "field_reactions (overwrite_decls MyClassAction) = Some [1] \<and>
   reactions (new_declared overwrite_decls MyClassAction [1, 2]) = Some [1] \<and>
   reactions (new_declared overwrite_decls MyClassAction [1, 2]) \<noteq> Some ([1] @ [1, 2])"
  by (simp add: new_declared_def overwrite_decls_def MyClassAction_def Let_def)

text \<open>
  C5, amended. The constructor always runs on a new object, which has no sequence of
  its own, so a non-empty list of arguments becomes the sequence of the instance in
  its order, and an empty one leaves the instance without a sequence. The arguments
  are those that reach the constructor of \<open>ClassAction\<close> through the \<open>super\<close> calls of
  the subtypes. When a subtype declares a default member, its value is what the
  instance holds after construction, whatever the arguments. \<open>new ClassAction(r1, r2)\<close>
  holds \<open>[r1, r2]\<close>; with the default \<open>[r1]\<close> the instance holds \<open>[r1]\<close>; with
  \<open>super(r1, ...reactions)\<close> it holds \<open>[r1, r1, r2]\<close>.
\<close>

theorem new_declared_reactions:
  "reactions (new_declared D k rs) =
     (case declared_default D k of
        Some d \<Rightarrow> Some d
      | None \<Rightarrow> (if base_args D k rs = [] then None else Some (base_args D k rs))) \<and>
   cls (new_declared D k rs) = k \<and>
   getReactions (new ClassAction [1, 2]) = [1, 2] \<and>
   getReactions (new_declared overwrite_decls MyClassAction [1, 2]) = [1] \<and>
   getReactions (new_declared extend_decls MyClassAction [1, 2]) = [1, 1, 2]"
proof (intro conjI)
  show "reactions (new_declared D k rs) =
     (case declared_default D k of
        Some d \<Rightarrow> Some d
      | None \<Rightarrow> (if base_args D k rs = [] then None else Some (base_args D k rs)))"
    unfolding new_declared_def by (rule construct_fresh)
  show "cls (new_declared D k rs) = k"
    by (simp add: new_declared_def construct_cls)
  show "getReactions (new ClassAction [1, 2]) = [1, 2]"
    by (simp add: new_def constructor_def getReactions_def)
  show "getReactions (new_declared overwrite_decls MyClassAction [1, 2]) = [1]"
    by (simp add: new_declared_def overwrite_decls_def MyClassAction_def getReactions_def Let_def)
  show "getReactions (new_declared extend_decls MyClassAction [1, 2]) = [1, 1, 2]"
    by (simp add: new_declared_def extend_decls_def MyClassAction_def getReactions_def Let_def
        prepend_reaction1_def constructor_def)
qed

text \<open>
  C6. \<open>addReactions\<close> leaves the instance with its previous sequence (the empty one when
  it had none) followed by the arguments in their order, duplicates included.
\<close>

theorem addReactions_appends:
  "reactions (addReactions this rs) = Some (getReactions this @ rs) \<and>
   cls (addReactions this rs) = cls this \<and>
   getReactions (addReactions (new ClassAction [1, 2]) [2, 2]) = [1, 2, 2, 2]"
  by (simp add: addReactions_def getReactions_def Let_def new_def constructor_def
      split: option.splits)

subsection \<open>Acting: auxiliary facts\<close>

lemma getClassReactions_user [simp]: "getClassReactions (w\<lparr>user := u\<rparr>) k = getClassReactions w k"
  by (simp add: getClassReactions_def)

lemma getAllReactions_user [simp]: "getAllReactions (w\<lparr>user := u\<rparr>) this = getAllReactions w this"
  by (simp add: getAllReactions_def)

lemma doAction_effect_only:
  "lookup T (cls (heap w this)) = Some (effect_only eff) \<Longrightarrow>
     doAction T this c w = Normal (w\<lparr>user := eff this c (user w)\<rparr>)"
  by (simp add: doAction_def effect_only_def)

lemma act_leaf:
  "lookup T (cls (heap w r)) = Some (effect_only eff) \<Longrightarrow> getAllReactions w r = [] \<Longrightarrow>
     act (Suc (Suc n)) T r c w = Some (Call r [], Normal (w\<lparr>user := eff r c (user w)\<rparr>))"
  by (simp add: doAction_effect_only)

text \<open>The tree that \<open>act\<close> returns is that of the object it was called on.\<close>

lemma act_root: "act n T r c w = Some (t, out) \<Longrightarrow> root t = r"
  by (cases n) (auto split: outcome.splits option.splits)

lemma forOf_roots:
  assumes "\<And>r w t out. body r w = Some (t, out) \<Longrightarrow> root t = r"
  shows "forOf body rs w = Some (ts, out) \<Longrightarrow>
     map root ts = (case out of Normal w' \<Rightarrow> rs | Throw e w' \<Rightarrow> take (length ts) rs)"
proof (induction rs arbitrary: w ts)
  case Nil
  then show ?case by auto
next
  case (Cons r rs)
  then show ?case using assms
    by (fastforce split: option.splits outcome.splits prod.splits)
qed

lemma forOf_abort:
  "forOf body pre w = Some (ts, Normal w1) \<Longrightarrow> body r w1 = Some (t, Throw e w2) \<Longrightarrow>
     forOf body (pre @ r # post) w = Some (ts @ [t], Throw e w2)"
proof (induction pre arbitrary: w ts)
  case Nil
  then show ?case by simp
next
  case (Cons a pre)
  then show ?case
    by (auto split: option.splits outcome.splits prod.splits)
qed

text \<open>
  A larger bound on the call stack does not change a result that a smaller one gave.
\<close>

lemma forOf_mono:
  assumes "\<And>r w res. body r w = Some res \<Longrightarrow> body' r w = Some res"
  shows "forOf body rs w = Some res \<Longrightarrow> forOf body' rs w = Some res"
proof (induction rs arbitrary: w res)
  case Nil
  then show ?case by simp
next
  case (Cons r rs)
  then show ?case using assms
    by (fastforce split: option.splits outcome.splits prod.splits)
qed

lemma act_doReactions_Suc:
  "(act n T this c w = Some res \<longrightarrow> act (Suc n) T this c w = Some res) \<and>
   (doReactions n T this c w = Some res' \<longrightarrow> doReactions (Suc n) T this c w = Some res')"
proof (induction n arbitrary: this w res res')
  case 0
  then show ?case by simp
next
  case (Suc n)
  have a: "act (Suc n) T this c w = Some res \<Longrightarrow> act (Suc (Suc n)) T this c w = Some res"
    for this w res
    using Suc by (auto split: outcome.splits option.splits prod.splits)
  have "doReactions (Suc n) T this c w = Some res' \<Longrightarrow> doReactions (Suc (Suc n)) T this c w = Some res'"
    using forOf_mono [of "\<lambda>reaction. act n T reaction c" "\<lambda>reaction. act (Suc n) T reaction c"]
      Suc by auto
  with a show ?case by blast
qed

lemma act_more_fuel: "act n T this c w = Some res \<Longrightarrow> act (n + k) T this c w = Some res"
proof (induction k)
  case 0
  then show ?case by simp
next
  case (Suc k)
  then have "act (n + k) T this c w = Some res" by simp
  then have "act (Suc (n + k)) T this c w = Some res"
    using act_doReactions_Suc [of "n + k" T this c w res] by blast
  then show ?case by (simp del: act.simps)
qed

lemma doReactions_more_fuel:
  "doReactions n T this c w = Some res \<Longrightarrow> doReactions (n + k) T this c w = Some res"
proof (induction k)
  case 0
  then show ?case by simp
next
  case (Suc k)
  then have "doReactions (n + k) T this c w = Some res" by simp
  then have "doReactions (Suc (n + k)) T this c w = Some res"
    using act_doReactions_Suc [of "n + k" T this c w _ res] by blast
  then show ?case by (simp del: doReactions.simps)
qed

text \<open>
  An object that is its own reaction: no bound on the call stack is enough, \<open>act\<close> and
  \<open>doReactions\<close> do not return.
\<close>

lemma self_reaction_never_returns:
  assumes "getAllReactions w this = [this]" and "lookup T (cls (heap w this)) = None"
  shows "act n T this c w = None \<and> doReactions n T this c w = None"
proof (induction n)
  case 0
  show ?case by simp
next
  case (Suc n)
  from assms(2) have d: "doAction T this c w = Normal w" by (simp add: doAction_def)
  from Suc d have "act (Suc n) T this c w = None" by simp
  moreover from Suc assms(1) have "doReactions (Suc n) T this c w = None" by simp
  ultimately show ?case by blast
qed

subsection \<open>Which reactions a call of \<open>doReactions\<close> invokes\<close>

text \<open>
  C10. The reactions that a call of \<open>doReactions\<close> invokes itself are the roots of the
  call trees it returns. When the call returns normally they are, in order, the value
  of \<open>getAllReactions\<close> in the world in which the call started, whatever the overrides
  of \<open>doAction\<close> did to the reactions of any object in between; when a reaction
  throws they are the part of that value up to the throwing reaction.
\<close>

theorem doReactions_fixed_at_start:
  "doReactions n T this c w = Some (ts, out) \<Longrightarrow>
     map root ts =
       (case out of
          Normal w' \<Rightarrow> getAllReactions w this
        | Throw e w' \<Rightarrow> take (length ts) (getAllReactions w this))"
proof (cases n)
  case 0
  assume "doReactions n T this c w = Some (ts, out)"
  with 0 show ?thesis by simp
next
  case (Suc m)
  assume "doReactions n T this c w = Some (ts, out)"
  with Suc have "forOf (\<lambda>reaction. act m T reaction c) (getAllReactions w this) w = Some (ts, out)"
    by simp
  then show ?thesis
    by (rule forOf_roots [rotated]) (rule act_root)
qed

subsection \<open>The order of \<open>act\<close>\<close>

text \<open>
  C3. \<open>act\<close> runs \<open>doAction\<close> and then, in the world that \<open>doAction\<close> left, \<open>doReactions\<close>
  (which is not run when \<open>doAction\<close> throws). On an instance with two reactions
  without reactions of their own, where all three objects have an override that
  applies an effect \<open>eff\<close> to the caller's variables, \<open>act\<close> applies the effect of the
  instance first, then that of the first and that of the second reaction, once each;
  with \<open>count++\<close> as the effect the counter grows by 3.
\<close>

theorem act_order:
  "act (Suc n) T this c w =
     (case doAction T this c w of
        Throw e w' \<Rightarrow> Some (Call this [], Throw e w')
      | Normal w' \<Rightarrow> map_option (\<lambda>(ts, out). (Call this ts, out)) (doReactions n T this c w')) \<and>
   (lookup T (cls (heap w this)) = Some (effect_only eff) \<and>
    lookup T (cls (heap w r1)) = Some (effect_only eff) \<and>
    lookup T (cls (heap w r2)) = Some (effect_only eff) \<and>
    getAllReactions w this = [r1, r2] \<and> getAllReactions w r1 = [] \<and> getAllReactions w r2 = []
    \<longrightarrow> act (Suc (Suc (Suc (Suc n)))) T this c w =
          Some (Call this [Call r1 [], Call r2 []],
                Normal (w\<lparr>user := eff r2 c (eff r1 c (eff this c (user w)))\<rparr>)))"
proof (intro conjI impI)
  show "act (Suc n) T this c w =
     (case doAction T this c w of
        Throw e w' \<Rightarrow> Some (Call this [], Throw e w')
      | Normal w' \<Rightarrow> map_option (\<lambda>(ts, out). (Call this ts, out)) (doReactions n T this c w'))"
    by (simp split: outcome.splits option.splits)
next
  assume h: "lookup T (cls (heap w this)) = Some (effect_only eff) \<and>
    lookup T (cls (heap w r1)) = Some (effect_only eff) \<and>
    lookup T (cls (heap w r2)) = Some (effect_only eff) \<and>
    getAllReactions w this = [r1, r2] \<and> getAllReactions w r1 = [] \<and> getAllReactions w r2 = []"
  let ?w0 = "w\<lparr>user := eff this c (user w)\<rparr>"
  let ?w1 = "?w0\<lparr>user := eff r1 c (user ?w0)\<rparr>"
  have d: "doAction T this c w = Normal ?w0"
    using h by (simp add: doAction_effect_only)
  have a1: "act (Suc (Suc n)) T r1 c ?w0 = Some (Call r1 [], Normal ?w1)"
    using h by (intro act_leaf) simp_all
  have a2: "act (Suc (Suc n)) T r2 c ?w1 = Some (Call r2 [], Normal (?w1\<lparr>user := eff r2 c (user ?w1)\<rparr>))"
    using h by (intro act_leaf) simp_all
  have "doReactions (Suc (Suc (Suc n))) T this c ?w0 =
      Some ([Call r1 [], Call r2 []], Normal (?w1\<lparr>user := eff r2 c (user ?w1)\<rparr>))"
    using h a1 a2 by (simp del: act.simps)
  with d show "act (Suc (Suc (Suc (Suc n)))) T this c w =
          Some (Call this [Call r1 [], Call r2 []],
                Normal (w\<lparr>user := eff r2 c (eff r1 c (eff this c (user w)))\<rparr>))"
    by (simp del: doReactions.simps)
qed

lemma count_world_facts:
  "getAllReactions count_world 3 = [1, 2]" "getAllReactions count_world 1 = []"
  "getAllReactions count_world 2 = []"
  "lookup count_overrides (cls (heap count_world 3)) = Some (effect_only increment)"
  "lookup count_overrides (cls (heap count_world 1)) = Some (effect_only increment)"
  "lookup count_overrides (cls (heap count_world 2)) = Some (effect_only increment)"
  by (simp_all add: count_world_def getAllReactions_def getClassReactions_def getReactions_def
      flat_def new_def constructor_def MyClassAction_def no_statics_def count_overrides_def)

theorem act_order_witness:
  "lookup count_overrides (cls (heap count_world 3)) = Some (effect_only increment) \<and>
   lookup count_overrides (cls (heap count_world 1)) = Some (effect_only increment) \<and>
   lookup count_overrides (cls (heap count_world 2)) = Some (effect_only increment) \<and>
   getAllReactions count_world 3 = [1, 2] \<and> getAllReactions count_world 1 = [] \<and>
   getAllReactions count_world 2 = [] \<and>
   act 4 count_overrides 3 () count_world =
     Some (Call 3 [Call 1 [], Call 2 []], Normal (count_world\<lparr>user := 3\<rparr>))"
proof -
  note facts = count_world_facts
  have u: "increment 2 () (increment 1 () (increment 3 () (user count_world))) = 3"
    by (simp add: count_world_def increment_def)
  have four: "Suc (Suc (Suc (Suc 0))) = 4" by simp
  have "act (Suc (Suc (Suc (Suc 0)))) count_overrides 3 () count_world =
     Some (Call 3 [Call 1 [], Call 2 []],
       Normal (count_world\<lparr>user := increment 2 () (increment 1 () (increment 3 () (user count_world)))\<rparr>))"
    using act_order [of 0 count_overrides 3 "()" count_world increment 1 2] facts by blast
  then have "act 4 count_overrides 3 () count_world =
     Some (Call 3 [Call 1 [], Call 2 []], Normal (count_world\<lparr>user := 3\<rparr>))"
    unfolding u four .
  with facts show ?thesis by blast
qed

subsection \<open>Unfolding the configurations\<close>

lemmas demo_defs =
  getAllReactions_def getClassReactions_def getReactions_def flat_def new_def constructor_def
  MyClassAction_def no_statics_def count_overrides_def plain_heap_def doAction_def
  effect_only_def increment_def

subsection \<open>\<open>doAction\<close> alone, \<open>doReactions\<close> alone\<close>

text \<open>
  A loop over reactions that have no reactions of their own and whose override applies
  an effect to the caller's variables: each is called once, in order.
\<close>

lemma forOf_leaves:
  "\<forall>r \<in> set rs. lookup T (cls (heap w r)) = Some (effect_only eff) \<and> getAllReactions w r = [] \<Longrightarrow>
     forOf (\<lambda>reaction. act (Suc (Suc n)) T reaction c) rs w =
       Some (map (\<lambda>r. Call r []) rs, Normal (w\<lparr>user := fold (\<lambda>r. eff r c) rs (user w)\<rparr>))"
proof (induction rs arbitrary: w)
  case Nil
  then show ?case by simp
next
  case (Cons r rs)
  let ?w1 = "w\<lparr>user := eff r c (user w)\<rparr>"
  from Cons.prems have a: "act (Suc (Suc n)) T r c w = Some (Call r [], Normal ?w1)"
    by (intro act_leaf) simp_all
  from Cons.prems have "\<forall>r \<in> set rs. lookup T (cls (heap ?w1 r)) = Some (effect_only eff) \<and>
      getAllReactions ?w1 r = []"
    by simp
  from Cons.IH [OF this] a show ?case by (simp del: act.simps)
qed

text \<open>
  C8. \<open>doAction\<close> does nothing without an override, and with an override that applies
  an effect to the caller's variables it applies that effect once and leaves the heap
  as it is, whatever reactions the heap attaches to the instance. \<open>doReactions\<close> on any
  instance is the loop that calls \<open>act\<close> on the reactions and nothing else. On any
  instance whose reactions, however many, have no reactions of their own and apply an
  effect, it applies the effects of the reactions in their order, once each, and not
  that of the instance, whose own \<open>doAction\<close> is arbitrary here; with \<open>count++\<close> the
  counter grows by 1 for \<open>doAction\<close> and by the number of reactions for \<open>doReactions\<close>.
\<close>

theorem doAction_local_doReactions_remote:
  "(lookup T (cls (heap w this)) = None \<longrightarrow> doAction T this c w = Normal w) \<and>
   (lookup T (cls (heap w this)) = Some (effect_only eff) \<longrightarrow>
      doAction T this c w = Normal (w\<lparr>user := eff this c (user w)\<rparr>)) \<and>
   doReactions (Suc n) T this c w =
      forOf (\<lambda>reaction. act n T reaction c) (getAllReactions w this) w \<and>
   ((\<forall>r \<in> set (getAllReactions w this).
        lookup T (cls (heap w r)) = Some (effect_only eff) \<and> getAllReactions w r = []) \<longrightarrow>
      doReactions (Suc (Suc (Suc n))) T this c w =
        Some (map (\<lambda>r. Call r []) (getAllReactions w this),
              Normal (w\<lparr>user := fold (\<lambda>r. eff r c) (getAllReactions w this) (user w)\<rparr>)))"
proof (intro conjI impI)
  assume "lookup T (cls (heap w this)) = None"
  then show "doAction T this c w = Normal w" by (simp add: doAction_def)
next
  assume "lookup T (cls (heap w this)) = Some (effect_only eff)"
  then show "doAction T this c w = Normal (w\<lparr>user := eff this c (user w)\<rparr>)"
    by (rule doAction_effect_only)
next
  show "doReactions (Suc n) T this c w =
      forOf (\<lambda>reaction. act n T reaction c) (getAllReactions w this) w"
    by simp
next
  assume "\<forall>r \<in> set (getAllReactions w this).
        lookup T (cls (heap w r)) = Some (effect_only eff) \<and> getAllReactions w r = []"
  then show "doReactions (Suc (Suc (Suc n))) T this c w =
        Some (map (\<lambda>r. Call r []) (getAllReactions w this),
              Normal (w\<lparr>user := fold (\<lambda>r. eff r c) (getAllReactions w this) (user w)\<rparr>))"
    using forOf_leaves [of "getAllReactions w this" T w eff n c] by (simp del: act.simps)
qed

lemma single_world_facts:
  "getAllReactions single_world 3 = [1]" "getAllReactions single_world 1 = []"
  "lookup count_overrides (cls (heap single_world 1)) = Some (effect_only increment)"
  by (simp_all add: single_world_def demo_defs)

theorem doAction_local_doReactions_remote_witness:
  "lookup count_overrides (cls (heap count_world 7)) = None \<and>
   doAction count_overrides 7 () count_world = Normal count_world \<and>
   lookup count_overrides (cls (heap count_world 3)) = Some (effect_only increment) \<and>
   doAction count_overrides 3 () count_world = Normal (count_world\<lparr>user := 1\<rparr>) \<and>
   lookup count_overrides (cls (heap count_world 1)) = Some (effect_only increment) \<and>
   lookup count_overrides (cls (heap count_world 2)) = Some (effect_only increment) \<and>
   getAllReactions count_world 3 = [1, 2] \<and> getAllReactions count_world 1 = [] \<and>
   getAllReactions count_world 2 = [] \<and>
   doReactions 3 count_overrides 3 () count_world =
     Some ([Call 1 [], Call 2 []], Normal (count_world\<lparr>user := 2\<rparr>)) \<and>
   lookup count_overrides (cls (heap single_world 1)) = Some (effect_only increment) \<and>
   getAllReactions single_world 3 = [1] \<and> getAllReactions single_world 1 = [] \<and>
   doReactions 3 count_overrides 3 () single_world =
     Some ([Call 1 []], Normal (single_world\<lparr>user := 1\<rparr>))"
proof -
  note facts = count_world_facts
  note sfacts = single_world_facts
  have none: "lookup count_overrides (cls (heap count_world 7)) = None"
    by (simp add: count_world_def demo_defs)
  have u: "increment 3 () (user count_world) = 1"
    by (simp add: count_world_def increment_def)
  have three: "Suc (Suc (Suc 0)) = 3" by simp
  note th = doAction_local_doReactions_remote [where T = count_overrides and eff = increment
      and n = 0 and c = "()"]
  have "doAction count_overrides 7 () count_world = Normal count_world"
    using th [where w = count_world and this = 7] none by blast
  moreover have "doAction count_overrides 3 () count_world = Normal (count_world\<lparr>user := 1\<rparr>)"
    using th [where w = count_world and this = 3] facts unfolding u by blast
  moreover have "doReactions 3 count_overrides 3 () count_world =
     Some ([Call 1 [], Call 2 []], Normal (count_world\<lparr>user := 2\<rparr>))"
  proof -
    have leaves: "\<forall>r \<in> set (getAllReactions count_world 3).
        lookup count_overrides (cls (heap count_world r)) = Some (effect_only increment) \<and>
        getAllReactions count_world r = []"
      using facts by simp
    have "doReactions (Suc (Suc (Suc 0))) count_overrides 3 () count_world =
        Some (map (\<lambda>r. Call r []) (getAllReactions count_world 3),
          Normal (count_world\<lparr>user := fold (\<lambda>r. increment r ())
            (getAllReactions count_world 3) (user count_world)\<rparr>))"
      using th [where w = count_world and this = 3] leaves by blast
    then have "doReactions 3 count_overrides 3 () count_world =
        Some (map (\<lambda>r. Call r []) [1, 2],
          Normal (count_world\<lparr>user := fold (\<lambda>r. increment r ()) [1, 2] (user count_world)\<rparr>))"
      unfolding three facts(1) .
    moreover have "fold (\<lambda>r. increment r ()) [1, 2] (user count_world) = 2"
      by (simp add: increment_def count_world_def)
    ultimately show ?thesis by simp
  qed
  moreover have "doReactions 3 count_overrides 3 () single_world =
     Some ([Call 1 []], Normal (single_world\<lparr>user := 1\<rparr>))"
  proof -
    have leaves: "\<forall>r \<in> set (getAllReactions single_world 3).
        lookup count_overrides (cls (heap single_world r)) = Some (effect_only increment) \<and>
        getAllReactions single_world r = []"
      using sfacts by simp
    have "doReactions (Suc (Suc (Suc 0))) count_overrides 3 () single_world =
        Some (map (\<lambda>r. Call r []) (getAllReactions single_world 3),
          Normal (single_world\<lparr>user := fold (\<lambda>r. increment r ())
            (getAllReactions single_world 3) (user single_world)\<rparr>))"
      using th [where w = single_world and this = 3] leaves by blast
    then have "doReactions 3 count_overrides 3 () single_world =
        Some (map (\<lambda>r. Call r []) [1],
          Normal (single_world\<lparr>user := fold (\<lambda>r. increment r ()) [1] (user single_world)\<rparr>))"
      unfolding three sfacts(1) .
    moreover have "fold (\<lambda>r. increment r ()) [1] (user single_world) = 1"
      by (simp add: increment_def single_world_def)
    ultimately show ?thesis by simp
  qed
  ultimately show ?thesis using none facts sfacts by blast
qed

subsection \<open>Failures\<close>

text \<open>
  C9. A failure is handed to the caller as it was raised, with the world as it was at
  that moment. When the own \<open>doAction\<close> throws, \<open>act\<close> throws the same value and calls
  no reaction. When the reactions before \<open>r\<close> return normally and \<open>act\<close> on \<open>r\<close> throws,
  \<open>doReactions\<close> throws the same value and has called the reactions up to \<open>r\<close> and none
  of those after it. When \<open>doReactions\<close> throws, \<open>act\<close> throws the same value.
\<close>

theorem failure_propagates:
  "(doAction T this c w = Throw e w' \<longrightarrow>
      act (Suc n) T this c w = Some (Call this [], Throw e w')) \<and>
   (getAllReactions w this = pre @ r # post \<and>
    forOf (\<lambda>reaction. act n T reaction c) pre w = Some (ts, Normal wm) \<and>
    act n T r c wm = Some (t, Throw e wx) \<longrightarrow>
      doReactions (Suc n) T this c w = Some (ts @ [t], Throw e wx)) \<and>
   (doAction T this c w = Normal wa \<and> doReactions n T this c wa = Some (ts, Throw e wx) \<longrightarrow>
      act (Suc n) T this c w = Some (Call this ts, Throw e wx))"
proof (intro conjI impI)
  assume "doAction T this c w = Throw e w'"
  then show "act (Suc n) T this c w = Some (Call this [], Throw e w')" by simp
next
  assume h: "getAllReactions w this = pre @ r # post \<and>
    forOf (\<lambda>reaction. act n T reaction c) pre w = Some (ts, Normal wm) \<and>
    act n T r c wm = Some (t, Throw e wx)"
  then have "forOf (\<lambda>reaction. act n T reaction c) (pre @ r # post) w = Some (ts @ [t], Throw e wx)"
    by (blast intro: forOf_abort)
  with h show "doReactions (Suc n) T this c w = Some (ts @ [t], Throw e wx)" by simp
next
  assume "doAction T this c w = Normal wa \<and> doReactions n T this c wa = Some (ts, Throw e wx)"
  then show "act (Suc n) T this c w = Some (Call this ts, Throw e wx)" by simp
qed

lemmas failing_defs = failing_world_def failing_overrides_def Failing_def boom_def

lemma failing_facts:
  "doAction failing_overrides 5 () (failing_world\<lparr>user := 2\<rparr>) = Throw ''boom'' (failing_world\<lparr>user := 2\<rparr>)"
  "getAllReactions (failing_world\<lparr>user := 1\<rparr>) 3 = [1] @ 5 # [2]"
  "getAllReactions (failing_world\<lparr>user := 2\<rparr>) 5 = [6]"
  "forOf (\<lambda>reaction. act 2 failing_overrides reaction ()) [1] (failing_world\<lparr>user := 1\<rparr>) =
     Some ([Call 1 []], Normal (failing_world\<lparr>user := 2\<rparr>))"
  "doAction failing_overrides 3 () failing_world = Normal (failing_world\<lparr>user := 1\<rparr>)"
  by (simp_all add: failing_defs demo_defs numeral_2_eq_2)

theorem failure_propagates_witness:
  "doAction failing_overrides 5 () (failing_world\<lparr>user := 2\<rparr>) = Throw ''boom'' (failing_world\<lparr>user := 2\<rparr>) \<and>
   getAllReactions (failing_world\<lparr>user := 2\<rparr>) 5 = [6] \<and>
   act 2 failing_overrides 5 () (failing_world\<lparr>user := 2\<rparr>) =
     Some (Call 5 [], Throw ''boom'' (failing_world\<lparr>user := 2\<rparr>)) \<and>
   getAllReactions (failing_world\<lparr>user := 1\<rparr>) 3 = [1] @ 5 # [2] \<and>
   forOf (\<lambda>reaction. act 2 failing_overrides reaction ()) [1] (failing_world\<lparr>user := 1\<rparr>) =
     Some ([Call 1 []], Normal (failing_world\<lparr>user := 2\<rparr>)) \<and>
   doReactions 3 failing_overrides 3 () (failing_world\<lparr>user := 1\<rparr>) =
     Some ([Call 1 []] @ [Call 5 []], Throw ''boom'' (failing_world\<lparr>user := 2\<rparr>)) \<and>
   doAction failing_overrides 3 () failing_world = Normal (failing_world\<lparr>user := 1\<rparr>) \<and>
   act 4 failing_overrides 3 () failing_world =
     Some (Call 3 ([Call 1 []] @ [Call 5 []]), Throw ''boom'' (failing_world\<lparr>user := 2\<rparr>))"
proof -
  note facts = failing_facts
  let ?w1 = "failing_world\<lparr>user := 1\<rparr>" and ?w2 = "failing_world\<lparr>user := 2\<rparr>"
  have n: "Suc 1 = 2" "Suc 2 = 3" "Suc 3 = 4" by simp_all
  have a: "act 2 failing_overrides 5 () ?w2 = Some (Call 5 [], Throw ''boom'' ?w2)"
    using failure_propagates [where T = failing_overrides and this = 5 and c = "()" and w = ?w2
        and e = "''boom''" and w' = ?w2 and n = 1] facts
    unfolding n by blast
  have b: "doReactions 3 failing_overrides 3 () ?w1 =
      Some ([Call 1 []] @ [Call 5 []], Throw ''boom'' ?w2)"
    using failure_propagates [where T = failing_overrides and this = 3 and c = "()" and w = ?w1
        and n = 2 and pre = "[1]" and r = 5 and post = "[2]" and ts = "[Call 1 []]"
        and wm = ?w2 and t = "Call 5 []" and e = "''boom''" and wx = ?w2] facts a
    unfolding n by blast
  have c: "act 4 failing_overrides 3 () failing_world =
      Some (Call 3 ([Call 1 []] @ [Call 5 []]), Throw ''boom'' ?w2)"
    using failure_propagates [where T = failing_overrides and this = 3 and c = "()"
        and w = failing_world and n = 3 and ts = "[Call 1 []] @ [Call 5 []]"
        and e = "''boom''" and wx = ?w2 and wa = ?w1] facts b
    unfolding n by blast
  from facts a b c show ?thesis by blast
qed

lemma rewiring_eval:
  "doReactions 3 rewiring_overrides 3 3 rewiring_world =
     Some ([Call 1 [], Call 2 []], Normal rewired_world)"
  by (simp add: rewiring_world_def rewired_world_def rewiring_overrides_def Rewiring_def
      rewire_def update_obj_def addReactions_def removeReaction_def splice_def Let_def
      demo_defs numeral_3_eq_3)

theorem doReactions_fixed_at_start_witness:
  "doReactions 3 rewiring_overrides 3 3 rewiring_world =
     Some ([Call 1 [], Call 2 []], Normal rewired_world) \<and>
   map root [Call 1 [], Call 2 []] = getAllReactions rewiring_world 3 \<and>
   getAllReactions rewiring_world 3 = [1, 2] \<and>
   getAllReactions rewired_world 3 = [1, 4]"
proof -
  have "map root [Call 1 [], Call 2 []] = getAllReactions rewiring_world 3"
    using doReactions_fixed_at_start [OF rewiring_eval] by simp
  moreover have "getAllReactions rewiring_world 3 = [1, 2]" "getAllReactions rewired_world 3 = [1, 4]"
    by (simp_all add: rewiring_world_def rewired_world_def update_obj_def demo_defs)
  ultimately show ?thesis using rewiring_eval by blast
qed

end
